theory Spec2Isabelle
  imports Complex_Main "HOL-Library.Sublist" "HOL-Library.Code_Target_Nat"
begin

section \<open>Strings\<close>

text \<open>
  A Python string is a sequence of Unicode code points. A code point is a natural number,
  and \<open>ascii\<close> gives the string of an ASCII literal.
\<close>

type_synonym codepoint = nat

type_synonym str = "codepoint list"

definition ascii :: "string \<Rightarrow> str" where
  "ascii s = map of_char s"

definition underscore :: codepoint where
  "underscore = 95"

text \<open>
  What the program takes from Python's Unicode database is a parameter of the model, with
  no property assumed:
  \<^item> \<open>isupper\<close>: \<open>str.isupper\<close> on a string of one character;
  \<^item> \<open>lower\<close>: \<open>str.lower\<close>, a function of the whole string, since the lower case of a
    character may depend on its neighbours and may be longer than one character;
  \<^item> \<open>capitalize\<close>: \<open>str.capitalize\<close>;
  \<^item> \<open>is_word\<close>: the class \<open>\w\<close> of a pattern on strings;
  \<^item> \<open>ignorecase_eq p c\<close>: under \<open>re.IGNORECASE\<close> the literal character \<open>p\<close> of a pattern
    matches the character \<open>c\<close> of the text; the regular expression engine decides this
    character by character.
\<close>

record unicode =
  isupper :: "codepoint \<Rightarrow> bool"
  lower :: "str \<Rightarrow> str"
  capitalize :: "str \<Rightarrow> str"
  is_word :: "codepoint \<Rightarrow> bool"
  ignorecase_eq :: "codepoint \<Rightarrow> codepoint \<Rightarrow> bool"

text \<open>The class \<open>[a-zA-Z]\<close> of a pattern without flags: these 52 code points.\<close>

definition ascii_isupper :: "codepoint \<Rightarrow> bool" where
  "ascii_isupper c = (65 \<le> c \<and> c \<le> 90)"

definition ascii_islower :: "codepoint \<Rightarrow> bool" where
  "ascii_islower c = (97 \<le> c \<and> c \<le> 122)"

definition ascii_isdigit :: "codepoint \<Rightarrow> bool" where
  "ascii_isdigit c = (48 \<le> c \<and> c \<le> 57)"

definition ascii_letter :: "codepoint \<Rightarrow> bool" where
  "ascii_letter c = (ascii_isupper c \<or> ascii_islower c)"

text \<open>
  The values of the Unicode functions on ASCII text, where they are the familiar ones:
  the tables with which the examples are evaluated.
\<close>

definition ascii_lower_char :: "codepoint \<Rightarrow> codepoint" where
  "ascii_lower_char c = (if ascii_isupper c then c + 32 else c)"

definition ascii_upper_char :: "codepoint \<Rightarrow> codepoint" where
  "ascii_upper_char c = (if ascii_islower c then c - 32 else c)"

fun ascii_capitalize :: "str \<Rightarrow> str" where
  "ascii_capitalize [] = []"
| "ascii_capitalize (c # cs) = ascii_upper_char c # map ascii_lower_char cs"

definition ascii_tables :: unicode where
  "ascii_tables =
     \<lparr>isupper = ascii_isupper,
      lower = map ascii_lower_char,
      capitalize = ascii_capitalize,
      is_word = (\<lambda>c. ascii_letter c \<or> ascii_isdigit c \<or> c = underscore),
      ignorecase_eq = (\<lambda>p c. ascii_lower_char p = ascii_lower_char c)\<rparr>"

text \<open>Tables that give ASCII text the case that \<open>ascii_tables\<close> gives it, as Python's do.\<close>

definition ascii_compatible :: "unicode \<Rightarrow> bool" where
  "ascii_compatible U =
     ((\<forall>c. c < 128 \<longrightarrow> isupper U c = ascii_isupper c)
      \<and> (\<forall>s. (\<forall>c \<in> set s. c < 128) \<longrightarrow> lower U s = map ascii_lower_char s))"

text \<open>\<open>str.split(sep)\<close> for a separator of one character: empty segments are kept.\<close>

fun split_on :: "codepoint \<Rightarrow> str \<Rightarrow> str list" where
  "split_on sep [] = [[]]"
| "split_on sep (c # cs) =
     (if c = sep then [] # split_on sep cs
      else (case split_on sep cs of
              [] \<Rightarrow> [[c]]
            | p # ps \<Rightarrow> (c # p) # ps))"

text \<open>\<open>sep.join(parts)\<close>.\<close>

fun join :: "str \<Rightarrow> str list \<Rightarrow> str" where
  "join sep [] = []"
| "join sep [p] = p"
| "join sep (p # q # ps) = p @ sep @ join sep (q # ps)"

text \<open>\<open>part in text\<close> on strings, as a search from left to right: \<open>part\<close> starts at the
  first character of \<open>text\<close> or it is in the rest.\<close>

fun contains :: "str \<Rightarrow> str \<Rightarrow> bool" where
  "contains [] part = (part = [])"
| "contains (c # cs) part = (prefix part (c # cs) \<or> contains cs part)"

section \<open>Name Splitter\<close>

text \<open>
  The loop of \<open>_split_name\<close> over the characters of a name without underscore, with its two
  variables \<open>parts\<close> and \<open>current\<close> as arguments; the result is their value after the loop.
\<close>

fun split_camel :: "unicode \<Rightarrow> str \<Rightarrow> str list \<Rightarrow> str \<Rightarrow> str list \<times> str" where
  "split_camel U [] parts current = (parts, current)"
| "split_camel U (char # rest) parts current =
     (if isupper U char \<and> current \<noteq> []
      then split_camel U rest (parts @ [lower U current]) [char]
      else split_camel U rest parts (current @ [char]))"

definition split_name :: "unicode \<Rightarrow> str \<Rightarrow> str list" where
  "split_name U name =
     (if underscore \<in> set name
      then [lower U part. part \<leftarrow> split_on underscore name, part \<noteq> []]
      else (case split_camel U name [] [] of
              (parts, current) \<Rightarrow>
                if current \<noteq> [] then parts @ [lower U current] else parts))"

section \<open>Regular expressions of the scorer and of the suggestion generator\<close>

text \<open>
  The assertion \<open>\b\<close> at index \<open>i\<close> of \<open>text\<close>: exactly one of the character before \<open>i\<close>
  and the character at \<open>i\<close> is a word character, where the positions before the start and
  after the end of the text count as no word character.
\<close>

definition boundary_at :: "unicode \<Rightarrow> str \<Rightarrow> nat \<Rightarrow> bool" where
  "boundary_at U text i =
     ((0 < i \<and> i \<le> length text \<and> is_word U (text ! (i - 1)))
      \<noteq> (i < length text \<and> is_word U (text ! i)))"

text \<open>
  \<open>re.search(r'\b' + re.escape(part) + r'\b', text, re.IGNORECASE)\<close> finds a match: at some
  index, between two \<open>\b\<close>, the text has as many characters as \<open>part\<close>, each matched by the
  character of \<open>part\<close> at its place.
\<close>

definition re_search_word :: "unicode \<Rightarrow> str \<Rightarrow> str \<Rightarrow> bool" where
  "re_search_word U part text =
     list_ex (\<lambda>i. boundary_at U text i
                 \<and> list_all2 (ignorecase_eq U) part (take (length part) (drop i text))
                 \<and> boundary_at U text (i + length part))
       [0..<Suc (length text)]"

text \<open>
  One attempt of \<open>\b[a-zA-Z]{3,}\b\<close> at index \<open>i\<close>: after a \<open>\b\<close> the greedy class takes
  the longest run of letters and gives characters back, down to three, until a \<open>\b\<close> follows.
  The result is the length of the match.
\<close>

definition match_word_at :: "unicode \<Rightarrow> str \<Rightarrow> nat \<Rightarrow> nat option" where
  "match_word_at U text i =
     (if boundary_at U text i
      then List.find (\<lambda>j. boundary_at U text (i + j))
             (rev [3..<Suc (length (takeWhile ascii_letter (drop i text)))])
      else None)"

lemma find_Some_mem: "List.find P xs = Some x \<Longrightarrow> x \<in> set xs"
  by (induction xs) (auto split: if_splits)

lemma match_word_at_length: "match_word_at U text i = Some j \<Longrightarrow> 3 \<le> j"
  by (auto simp: match_word_at_def split: if_splits dest!: find_Some_mem)

text \<open>\<open>re.findall\<close> for that pattern, from index \<open>i\<close> on: the matches from left to right,
  the search resuming where a match ended.\<close>

function findall_words_from :: "unicode \<Rightarrow> str \<Rightarrow> nat \<Rightarrow> str list" where
  "findall_words_from U text i =
     (if length text \<le> i then []
      else (case match_word_at U text i of
              None \<Rightarrow> findall_words_from U text (Suc i)
            | Some j \<Rightarrow> take j (drop i text) # findall_words_from U text (i + j)))"
  by pat_completeness auto
termination
  by (relation "measure (\<lambda>(U, text, i). length text - i)")
     (auto dest: match_word_at_length)

definition findall_words :: "unicode \<Rightarrow> str \<Rightarrow> str list" where
  "findall_words U text = findall_words_from U text 0"

section \<open>Relevance Scorer\<close>

definition stoplist :: "str list" where
  "stoplist = map ascii [''get'', ''set'', ''is'', ''has'', ''on'', ''class'']"

definition generic_names :: "str list" where
  "generic_names = map ascii [''test'', ''helper'', ''util'', ''utility'', ''misc'']"

text \<open>
  Scores are Python floats. They are modelled by exact real numbers: every score is a
  count in halves divided by a number of tokens, less the decimal constants of the source.
\<close>

text \<open>The loop that counts the parts found in the implementation, \<open>found\<close> being the
  running value of \<open>found_parts\<close>.\<close>

fun count_found :: "unicode \<Rightarrow> str list \<Rightarrow> str \<Rightarrow> real \<Rightarrow> real" where
  "count_found U [] implementation found = found"
| "count_found U (part # rest) implementation found =
     (if length part > 2 \<and> re_search_word U part implementation
      then count_found U rest implementation (found + 1)
      else if contains (lower U implementation) part
      then count_found U rest implementation (found + 0.5)
      else count_found U rest implementation found)"

definition filtered_parts :: "unicode \<Rightarrow> str \<Rightarrow> str list" where
  "filtered_parts U name = [p \<leftarrow> split_name U name. p \<notin> set stoplist]"

text \<open>The score and the reasons of \<open>_calculate_relevance\<close> before the adjustments.\<close>

definition base_relevance :: "unicode \<Rightarrow> str \<Rightarrow> str \<Rightarrow> real \<times> str list" where
  "base_relevance U name implementation =
     (let parts = filtered_parts U name;
          found_parts = count_found U parts implementation 0
      in if parts = [] then (0.5, [ascii ''Name doesn't contain meaningful parts''])
         else (found_parts / real (length parts), []))"

text \<open>The two adjustments: the score and the reasons before the classification.\<close>

definition adjusted_relevance :: "unicode \<Rightarrow> str \<Rightarrow> str \<Rightarrow> real \<times> str list" where
  "adjusted_relevance U name implementation =
     (case base_relevance U name implementation of (score, reasons) \<Rightarrow>
        (case (if lower U name \<in> set generic_names
               then (score - 0.2, reasons @ [ascii ''Name is too generic''])
               else (score, reasons)) of (score, reasons) \<Rightarrow>
           (if length name \<le> 2
            then (score - 0.3, reasons @ [ascii ''Name is too short''])
            else (score, reasons))))"

definition classification :: "real \<Rightarrow> str" where
  "classification score =
     (if score < 0.3 then ascii ''Name different from implementation - Wrong name''
      else if score < 0.5
      then ascii ''Name somewhat reflects implementation - Consider changing''
      else if score < 0.6 then ascii ''Name reflects implementation - needs improvement''
      else if score < 0.7 then ascii ''Name reflects implementation - good''
      else ascii ''Name reflects implementation well'')"

definition calculate_relevance :: "unicode \<Rightarrow> str \<Rightarrow> str \<Rightarrow> real \<times> str list" where
  "calculate_relevance U name implementation =
     (case adjusted_relevance U name implementation of (score, reasons) \<Rightarrow>
        (max 0 (min 1 score), reasons @ [classification score]))"

section \<open>Suggestion Generator\<close>

datatype py_error = IndexError

text \<open>\<open>Counter(words)\<close> as an association list in the order of first occurrence.\<close>

fun counter_add :: "str \<Rightarrow> (str \<times> nat) list \<Rightarrow> (str \<times> nat) list" where
  "counter_add w [] = [(w, 1)]"
| "counter_add w ((k, c) # rest) =
     (if k = w then (k, Suc c) # rest else (k, c) # counter_add w rest)"

definition Counter :: "str list \<Rightarrow> (str \<times> nat) list" where
  "Counter words = foldl (\<lambda>counts w. counter_add w counts) [] words"

definition stop_words :: "str list" where
  "stop_words = map ascii [''the'', ''and'', ''for'', ''with'', ''from'', ''self'', ''none'',
                           ''true'', ''false'', ''return'']"

text \<open>\<open>most_common(n)\<close>: the \<open>n\<close> largest counts, equal counts in the order of first
  occurrence.\<close>

definition most_common :: "nat \<Rightarrow> (str \<times> nat) list \<Rightarrow> (str \<times> nat) list" where
  "most_common n counts = take n (sort_key (\<lambda>(w, c). - int c) counts)"

definition generate_suggestion :: "unicode \<Rightarrow> str \<Rightarrow> str \<Rightarrow> py_error + str" where
  "generate_suggestion U original_name implementation =
     (let words = findall_words U (lower U implementation);
          word_counts = [(w, c) \<leftarrow> Counter words. w \<notin> set stop_words];
          common_words = map fst (most_common 3 word_counts)
      in if common_words = []
         then Inr (ascii ''Consider adding a clear docstring to help determine a better name'')
         else if underscore \<in> set original_name
         then Inr (ascii ''Consider: '' @ join [underscore] common_words)
         else (case original_name of
                 [] \<Rightarrow> Inl IndexError
               | c # _ \<Rightarrow>
                   if isupper U c
                   then Inr (ascii ''Consider: '' @ concat (map (capitalize U) common_words))
                   else Inr (ascii ''Consider: '' @ hd common_words
                               @ concat (map (capitalize U) (tl common_words)))))"

section \<open>Syntax trees\<close>

text \<open>
  The part of a Python syntax tree that the analysis looks at. Statements never occur below
  an expression, so the expressions are not part of the tree, except the targets of an
  assignment. Every node carries
  \<^item> its object identity (Python compares nodes by identity, and the nodes of a parsed tree
    are pairwise distinct objects),
  \<^item> for a definition: its name, the value of \<open>ast.get_docstring\<close> at the node, and its body,
  \<^item> for a function definition also \<open>lineno\<close> and \<open>end_lineno\<close>.
  \<open>Other\<close> is any other node, with its child nodes in the order of \<open>ast.iter_child_nodes\<close>.
\<close>

datatype expr = Name str | Tuple "expr list" | OtherExpr

datatype node =
    Module nat "node list"
  | ClassDef nat str "str option" "node list"
  | FunctionDef nat str "str option" int int "node list"
  | AsyncFunctionDef nat str "str option" int int "node list"
  | Assign nat "expr list"
  | Other nat "node list"

fun isClassDef :: "node \<Rightarrow> bool" where
  "isClassDef (ClassDef _ _ _ _) = True"
| "isClassDef _ = False"

fun isFunctionDef :: "node \<Rightarrow> bool" where
  "isFunctionDef (FunctionDef _ _ _ _ _ _) = True"
| "isFunctionDef _ = False"

fun isAsyncFunctionDef :: "node \<Rightarrow> bool" where
  "isAsyncFunctionDef (AsyncFunctionDef _ _ _ _ _ _) = True"
| "isAsyncFunctionDef _ = False"

fun node_name :: "node \<Rightarrow> str" where
  "node_name (ClassDef _ nm _ _) = nm"
| "node_name (FunctionDef _ nm _ _ _ _) = nm"
| "node_name (AsyncFunctionDef _ nm _ _ _ _) = nm"
| "node_name _ = []"

fun get_docstring :: "node \<Rightarrow> str option" where
  "get_docstring (ClassDef _ _ doc _) = doc"
| "get_docstring (FunctionDef _ _ doc _ _ _) = doc"
| "get_docstring (AsyncFunctionDef _ _ doc _ _ _) = doc"
| "get_docstring _ = None"

text \<open>The attribute \<open>body\<close> of the nodes that are known to have one.\<close>

fun node_body :: "node \<Rightarrow> node list" where
  "node_body (Module _ body) = body"
| "node_body (ClassDef _ _ _ body) = body"
| "node_body (FunctionDef _ _ _ _ _ body) = body"
| "node_body (AsyncFunctionDef _ _ _ _ _ body) = body"
| "node_body _ = []"

fun iter_child_nodes :: "node \<Rightarrow> node list" where
  "iter_child_nodes (Assign _ _) = []"
| "iter_child_nodes (Other _ children) = children"
| "iter_child_nodes node = node_body node"

lemma size_list_sum_list: "size_list f xs = sum_list (map (\<lambda>x. Suc (f x)) xs)"
  by (induction xs) auto

lemma size_iter_child_nodes:
  "sum_list (map (\<lambda>n. Suc (size n)) (iter_child_nodes node)) \<le> size node"
  by (cases node) (auto simp: size_list_sum_list)

text \<open>\<open>ast.walk\<close>: breadth first, \<open>todo\<close> being the queue.\<close>

function walk_queue :: "node list \<Rightarrow> node list" where
  "walk_queue [] = []"
| "walk_queue (node # todo) = node # walk_queue (todo @ iter_child_nodes node)"
  by pat_completeness auto
termination
proof (relation "measure (\<lambda>todo. sum_list (map (\<lambda>n. Suc (size n)) todo))")
  show "wf (measure (\<lambda>todo. sum_list (map (\<lambda>n. Suc (size n)) todo)))"
    by simp
next
  fix node :: node and todo :: "node list"
  show "(todo @ iter_child_nodes node, node # todo)
          \<in> measure (\<lambda>todo. sum_list (map (\<lambda>n. Suc (size n)) todo))"
    using size_iter_child_nodes [of node] by simp
qed

definition walk :: "node \<Rightarrow> node list" where
  "walk tree = walk_queue [tree]"

section \<open>Implementation Summarizer\<close>

text \<open>
  \<open>_is_method\<close>: some child of the root that has \<open>node\<close> in its body is a class definition.
  The generator of the source yields \<open>isinstance(parent, ast.ClassDef)\<close> for every child of
  the root whose body holds the node, so a child that is no class definition never makes
  \<open>any\<close> true. Membership is identity of objects, which the first field of a node stands for.
\<close>

definition is_method :: "node \<Rightarrow> node \<Rightarrow> bool" where
  "is_method tree node =
     list_ex isClassDef [parent \<leftarrow> iter_child_nodes tree. node \<in> set (node_body parent)]"

text \<open>The names of the \<open>ast.Name\<close> targets of one statement of a class body, in order.\<close>

fun target_names :: "node \<Rightarrow> str list" where
  "target_names (Assign _ targets) = [target_id. Name target_id \<leftarrow> targets]"
| "target_names _ = []"

definition extract_class_attributes :: "node \<Rightarrow> str list" where
  "extract_class_attributes node = concat (map target_names (node_body node))"

definition class_methods :: "node \<Rightarrow> str list" where
  "class_methods node = [node_name n. n \<leftarrow> node_body node, isFunctionDef n]"

text \<open>\<open>ast.get_docstring(node) or ""\<close>.\<close>

definition docstring_or_empty :: "node \<Rightarrow> str" where
  "docstring_or_empty node = (case get_docstring node of None \<Rightarrow> [] | Some doc \<Rightarrow> doc)"

definition class_summary :: "node \<Rightarrow> str" where
  "class_summary node =
     docstring_or_empty node @ ascii '' '' @ join (ascii '' '') (class_methods node)
       @ ascii '' '' @ join (ascii '' '') (extract_class_attributes node)"

text \<open>\<open>str.splitlines()\<close>; \<open>line\<close> is the line being read. A line ends at a line feed, a
  vertical tab, a form feed, a carriage return (with the line feed after it, if any), a
  file, group or record separator, a next line (0x85), or a line or paragraph separator.\<close>

definition is_linebreak :: "codepoint \<Rightarrow> bool" where
  "is_linebreak c =
     (c \<in> set [0x0A, 0x0B, 0x0C, 0x0D, 0x1C, 0x1D, 0x1E, 0x85, 0x2028, 0x2029])"

fun splitlines_from :: "str \<Rightarrow> str \<Rightarrow> str list" where
  "splitlines_from [] line = (if line = [] then [] else [line])"
| "splitlines_from [c] line =
     (if is_linebreak c then [line] else [line @ [c]])"
| "splitlines_from (c # d # rest) line =
     (if c = 0x0D \<and> d = 0x0A then line # splitlines_from rest []
      else if is_linebreak c then line # splitlines_from (d # rest) []
      else splitlines_from (d # rest) (line @ [c]))"

definition splitlines :: "str \<Rightarrow> str list" where
  "splitlines text = splitlines_from text []"

text \<open>An index of a Python slice, brought into the range of a list of length \<open>n\<close>.\<close>

definition slice_index :: "nat \<Rightarrow> int \<Rightarrow> nat" where
  "slice_index n i = (if i < 0 then nat (max 0 (int n + i)) else min n (nat i))"

text \<open>\<open>xs[i:j]\<close>.\<close>

definition py_slice :: "'a list \<Rightarrow> int \<Rightarrow> int \<Rightarrow> 'a list" where
  "py_slice xs i j =
     (let a = slice_index (length xs) i; b = slice_index (length xs) j
      in take (b - a) (drop a xs))"

text \<open>
  \<open>_get_node_source\<close>. The analysis passes it function definitions only, so the tree keeps
  \<open>lineno\<close> and \<open>end_lineno\<close> for the function definitions alone; for any other node the model
  takes the last branch of the source.
\<close>

fun line_numbers :: "node \<Rightarrow> (int \<times> int) option" where
  "line_numbers (FunctionDef _ _ _ lineno end_lineno _) = Some (lineno, end_lineno)"
| "line_numbers (AsyncFunctionDef _ _ _ lineno end_lineno _) = Some (lineno, end_lineno)"
| "line_numbers _ = None"

definition get_node_source :: "str option \<Rightarrow> node \<Rightarrow> str" where
  "get_node_source code node =
     (case code of
        None \<Rightarrow> []
      | Some text \<Rightarrow>
          if text = [] then []
          else (case line_numbers node of
                  None \<Rightarrow> []
                | Some (lineno, end_lineno) \<Rightarrow>
                    join (ascii '' '') (py_slice (splitlines text) (lineno - 1) end_lineno)))"

definition function_summary :: "str option \<Rightarrow> node \<Rightarrow> str" where
  "function_summary code node =
     docstring_or_empty node @ ascii '' '' @ get_node_source code node"

section \<open>Analysis Orchestrator\<close>

text \<open>One entry of the report. A suggestion that is \<open>None\<close> in the source is \<open>None\<close> here.\<close>

record entity =
  name :: str
  relevance_score :: real
  reasons :: "str list"
  suggestion :: "str option"

text \<open>
  The entry that both loops append for a name and its implementation summary. The suggestion
  generator is called only below 0.7; its exception ends the analysis.
\<close>

definition entry :: "unicode \<Rightarrow> str \<Rightarrow> str \<Rightarrow> py_error + entity" where
  "entry U entity_name impl_summary =
     (case calculate_relevance U entity_name impl_summary of (score, rs) \<Rightarrow>
        if score < 0.7
        then (case generate_suggestion U entity_name impl_summary of
                Inl e \<Rightarrow> Inl e
              | Inr s \<Rightarrow> Inr \<lparr>name = entity_name, relevance_score = score, reasons = rs,
                              suggestion = Some s\<rparr>)
        else Inr \<lparr>name = entity_name, relevance_score = score, reasons = rs,
                  suggestion = None\<rparr>)"

text \<open>The loop of \<open>_analyze_classes\<close> over the nodes still to visit.\<close>

fun classes_loop :: "unicode \<Rightarrow> node list \<Rightarrow> entity list \<Rightarrow> py_error + entity list" where
  "classes_loop U [] classes = Inr classes"
| "classes_loop U (node # rest) classes =
     (if isClassDef node
      then (case entry U (node_name node) (class_summary node) of
              Inl e \<Rightarrow> Inl e
            | Inr c \<Rightarrow> classes_loop U rest (classes @ [c]))
      else classes_loop U rest classes)"

definition analyze_classes :: "unicode \<Rightarrow> node \<Rightarrow> py_error + entity list" where
  "analyze_classes U tree = classes_loop U (walk tree) []"

text \<open>The loop of \<open>_analyze_functions\<close> over the nodes still to visit.\<close>

fun functions_loop ::
  "unicode \<Rightarrow> str option \<Rightarrow> node \<Rightarrow> node list \<Rightarrow> entity list
     \<Rightarrow> py_error + entity list" where
  "functions_loop U code tree [] functions = Inr functions"
| "functions_loop U code tree (node # rest) functions =
     (if isFunctionDef node \<and> \<not> is_method tree node
      then (case entry U (node_name node) (function_summary code node) of
              Inl e \<Rightarrow> Inl e
            | Inr f \<Rightarrow> functions_loop U code tree rest (functions @ [f]))
      else functions_loop U code tree rest functions)"

definition analyze_functions :: "unicode \<Rightarrow> str option \<Rightarrow> node \<Rightarrow> py_error + entity list" where
  "analyze_functions U code tree = functions_loop U code tree (walk tree) []"

text \<open>
  The detector object. Reading the file and parsing it are the environment of the program:
  \<open>read_file\<close> and \<open>ast_parse\<close> return the exception they raise on the left.
\<close>

datatype exn = Exception str

record detector =
  code_file :: str
  code :: "str option"
  tree :: "node option"

definition load_file ::
  "(str \<Rightarrow> exn + str) \<Rightarrow> (str \<Rightarrow> exn + node) \<Rightarrow> detector \<Rightarrow> detector" where
  "load_file read_file ast_parse self =
     (case read_file (code_file self) of
        Inl e \<Rightarrow> self
      | Inr text \<Rightarrow>
          (case ast_parse text of
             Inl e \<Rightarrow> self\<lparr>code := Some text\<rparr>
           | Inr t \<Rightarrow> self\<lparr>code := Some text, tree := Some t\<rparr>))"

definition init ::
  "(str \<Rightarrow> exn + str) \<Rightarrow> (str \<Rightarrow> exn + node) \<Rightarrow> str \<Rightarrow> detector" where
  "init read_file ast_parse path =
     load_file read_file ast_parse \<lparr>code_file = path, code = None, tree = None\<rparr>"

text \<open>The dictionary that \<open>analyze\<close> returns: a key that is absent is \<open>None\<close>.\<close>

record results =
  error :: "str option"
  classes :: "entity list option"
  "functions" :: "entity list option"
  overall_score :: "real option"

definition analyze :: "unicode \<Rightarrow> detector \<Rightarrow> py_error + results" where
  "analyze U self =
     (case tree self of
        None \<Rightarrow> Inr \<lparr>error = Some (ascii ''Failed to parse the file''), classes = None,
                       functions = None, overall_score = None\<rparr>
      | Some t \<Rightarrow>
          (case analyze_classes U t of
             Inl e \<Rightarrow> Inl e
           | Inr cs \<Rightarrow>
               (case analyze_functions U (code self) t of
                  Inl e \<Rightarrow> Inl e
                | Inr fs \<Rightarrow>
                    (let class_scores = map relevance_score cs;
                         func_scores = map relevance_score fs;
                         all_scores = class_scores @ func_scores
                     in Inr \<lparr>error = None, classes = Some cs, functions = Some fs,
                              overall_score =
                                Some (if all_scores \<noteq> []
                                      then sum_list all_scores / real (length all_scores)
                                      else 0)\<rparr>))))"

definition analyze_file ::
  "unicode \<Rightarrow> (str \<Rightarrow> exn + str) \<Rightarrow> (str \<Rightarrow> exn + node) \<Rightarrow> str
     \<Rightarrow> py_error + results" where
  "analyze_file U read_file ast_parse file_path =
     analyze U (init read_file ast_parse file_path)"

section \<open>The specification's wording of the splitter and of the base score\<close>

text \<open>
  The capitalization rule as the specification words it: a token is one character followed
  by the characters up to the next upper-case one, where the next token starts.
\<close>

function split_upper :: "unicode \<Rightarrow> str \<Rightarrow> str list" where
  "split_upper U [] = []"
| "split_upper U (c # cs) =
     (c # takeWhile (\<lambda>x. \<not> isupper U x) cs)
       # split_upper U (dropWhile (\<lambda>x. \<not> isupper U x) cs)"
  by pat_completeness auto
termination
  by (relation "measure (\<lambda>(U, s). length s)") (auto simp: less_Suc_eq_le length_dropWhile_le)

text \<open>
  The assertion \<open>\b\<close> where a text \<open>before\<close> ends and a text \<open>after\<close> starts: exactly one of
  the last character of \<open>before\<close> and the first character of \<open>after\<close> is a word character.
\<close>

definition word_edge :: "unicode \<Rightarrow> str \<Rightarrow> str \<Rightarrow> bool" where
  "word_edge U before after =
     ((before \<noteq> [] \<and> is_word U (last before)) \<noteq> (after \<noteq> [] \<and> is_word U (hd after)))"

text \<open>
  A token occurs in a text as a whole word, letter case ignored: the text is some text
  \<open>pre\<close>, then a text \<open>mid\<close> that reads as the token does when case is ignored, then some text
  \<open>post\<close>, with a \<open>\b\<close> on both sides of \<open>mid\<close>.
\<close>

definition occurs_as_word :: "unicode \<Rightarrow> str \<Rightarrow> str \<Rightarrow> bool" where
  "occurs_as_word U token text =
     (\<exists>pre mid post. text = pre @ mid @ post
        \<and> list_all2 (ignorecase_eq U) token mid
        \<and> word_edge U pre (mid @ post) \<and> word_edge U (pre @ mid) post)"

text \<open>
  A token, which is in lower case, occurs in a text as a substring, letter case ignored:
  the text in lower case is some text, then the token, then some text.
\<close>

definition occurs_ignoring_case :: "unicode \<Rightarrow> str \<Rightarrow> str \<Rightarrow> bool" where
  "occurs_ignoring_case U token text = (\<exists>pre post. lower U text = pre @ token @ post)"

text \<open>
  What one token counts for, as the specification words it: 1 for a token longer than two
  characters that occurs as a whole word, else a half for a token that occurs as a
  substring, else nothing; letter case is ignored in both.
\<close>

definition token_credit :: "unicode \<Rightarrow> str \<Rightarrow> str \<Rightarrow> real" where
  "token_credit U token implementation =
     (if length token > 2 \<and> occurs_as_word U token implementation then 1
      else if occurs_ignoring_case U token implementation then 1 / 2
      else 0)"

section \<open>Well-formed trees and example files\<close>

text \<open>The parser gives every class and function definition a name that is not empty.\<close>

definition well_named :: "node \<Rightarrow> bool" where
  "well_named t =
     list_all (\<lambda>n. (isClassDef n \<or> isFunctionDef n) \<longrightarrow> node_name n \<noteq> []) (walk t)"

text \<open>
  A file with a method in a class that is nested in a class:
  \<^verbatim>\<open>
  class Outer:
      class Inner:
          def method(self):
              return 1
  \<close>
\<close>

definition nested_source :: str where
  "nested_source =
     ascii ''class Outer:'' @ [0x0A] @ ascii ''    class Inner:'' @ [0x0A]
       @ ascii ''        def method(self):'' @ [0x0A] @ ascii ''            return 1'' @ [0x0A]"

definition nested_example :: node where
  "nested_example =
     Module 0 [ClassDef 1 (ascii ''Outer'') None
                 [ClassDef 2 (ascii ''Inner'') None
                    [FunctionDef 3 (ascii ''method'') None 3 4 [Other 4 []]]]]"

definition nested_detector :: detector where
  "nested_detector =
     \<lparr>code_file = ascii ''nested.py'', code = Some nested_source, tree = Some nested_example\<rparr>"

definition outer_entry :: entity where
  "outer_entry =
     \<lparr>name = ascii ''Outer'', relevance_score = 0,
      reasons = [ascii ''Name different from implementation - Wrong name''],
      suggestion =
        Some (ascii ''Consider adding a clear docstring to help determine a better name'')\<rparr>"

definition inner_entry :: entity where
  "inner_entry =
     \<lparr>name = ascii ''Inner'', relevance_score = 0,
      reasons = [ascii ''Name different from implementation - Wrong name''],
      suggestion = Some (ascii ''Consider: Method'')\<rparr>"

definition method_entry :: entity where
  "method_entry =
     \<lparr>name = ascii ''method'', relevance_score = 1,
      reasons = [ascii ''Name reflects implementation well''], suggestion = None\<rparr>"

definition nested_report :: results where
  "nested_report =
     \<lparr>error = None, classes = Some [outer_entry, inner_entry],
      functions = Some [method_entry], overall_score = Some (1 / 3)\<rparr>"

text \<open>
  A file with asynchronous definitions:
  \<^verbatim>\<open>
  async def fetch():
      def inner():
          pass
  class Client:
      async def connect(self):
          pass
      def close(self):
          pass
  \<close>
\<close>

definition async_body :: "node list" where
  "async_body =
     [AsyncFunctionDef 5 (ascii ''connect'') None 5 6 [Other 6 []],
      FunctionDef 7 (ascii ''close'') None 7 8 [Other 8 []]]"

definition async_example :: node where
  "async_example =
     Module 0 [AsyncFunctionDef 1 (ascii ''fetch'') None 1 3
                 [FunctionDef 2 (ascii ''inner'') None 2 3 [Other 3 []]],
               ClassDef 4 (ascii ''Client'') None async_body]"

section \<open>Properties of the Name Splitter\<close>

lemma split_camel_spec:
  "current \<noteq> [] \<Longrightarrow>
   (case split_camel U s parts current of
      (ps, cur) \<Rightarrow> if cur \<noteq> [] then ps @ [lower U cur] else ps)
   = parts @ [lower U (current @ takeWhile (\<lambda>x. \<not> isupper U x) s)]
       @ map (lower U) (split_upper U (dropWhile (\<lambda>x. \<not> isupper U x) s))"
proof (induction s arbitrary: parts current)
  case Nil
  then show ?case by simp
next
  case (Cons c s)
  then show ?case by simp
qed

lemma split_name_camel:
  "underscore \<notin> set nm \<Longrightarrow> split_name U nm = map (lower U) (split_upper U nm)"
proof (cases nm)
  case Nil
  then show ?thesis by (simp add: split_name_def)
next
  case (Cons c cs)
  assume "underscore \<notin> set nm"
  with Cons split_camel_spec [of "[c]" U cs "[]"] show ?thesis
    by (simp add: split_name_def)
qed

lemma snake_parts:
  "[f part. part \<leftarrow> xs, part \<noteq> []] = map f [p \<leftarrow> xs. p \<noteq> []]"
  by (induction xs) auto

lemma split_name_snake:
  "underscore \<in> set nm \<Longrightarrow>
   split_name U nm = map (lower U) [p \<leftarrow> split_on underscore nm. p \<noteq> []]"
  by (simp add: split_name_def snake_parts)

lemma concat_split_upper: "concat (split_upper U s) = s"
  by (induction U s rule: split_upper.induct) simp_all

lemma split_upper_nonempty: "[] \<notin> set (split_upper U s)"
  by (induction U s rule: split_upper.induct) simp_all

lemma concat_split_on: "concat (split_on sep s) = [c \<leftarrow> s. c \<noteq> sep]"
  by (induction s) (auto split: list.splits)

lemma concat_filter_nonempty: "concat [p \<leftarrow> ps. p \<noteq> []] = concat ps"
  by (induction ps) auto

lemma split_name_segments:
  "\<exists>segments. split_name U nm = map (lower U) segments \<and> [] \<notin> set segments
     \<and> concat segments = [c \<leftarrow> nm. c \<noteq> underscore]"
proof (cases "underscore \<in> set nm")
  case True
  let ?segs = "[p \<leftarrow> split_on underscore nm. p \<noteq> []]"
  have "split_name U nm = map (lower U) ?segs"
    using True by (rule split_name_snake)
  moreover have "[] \<notin> set ?segs"
    by simp
  moreover have "concat ?segs = [c \<leftarrow> nm. c \<noteq> underscore]"
    by (simp add: concat_filter_nonempty concat_split_on)
  ultimately show ?thesis
    by blast
next
  case False
  then have "[c \<leftarrow> nm. c \<noteq> underscore] = nm"
    by (auto simp: filter_id_conv)
  with False show ?thesis
    using split_name_camel [of nm U] split_upper_nonempty [of U nm] concat_split_upper [of U nm]
    by auto
qed

lemma split_upper_cong:
  "\<forall>c \<in> set s. isupper U c = isupper V c \<Longrightarrow> split_upper U s = split_upper V s"
proof (induction U s rule: split_upper.induct)
  case (1 U)
  then show ?case by simp
next
  case (2 U c cs)
  from "2.prems" have eq: "\<forall>x \<in> set cs. (\<not> isupper U x) = (\<not> isupper V x)"
    by simp
  have t: "takeWhile (\<lambda>x. \<not> isupper U x) cs = takeWhile (\<lambda>x. \<not> isupper V x) cs"
    using eq by (intro takeWhile_cong) auto
  have d: "dropWhile (\<lambda>x. \<not> isupper U x) cs = dropWhile (\<lambda>x. \<not> isupper V x) cs"
    using eq by (intro dropWhile_cong) auto
  have "\<forall>x \<in> set (dropWhile (\<lambda>x. \<not> isupper U x) cs). isupper U x = isupper V x"
    using "2.prems" by (auto dest: set_dropWhileD)
  from "2.IH" [OF this] t d show ?case
    by simp
qed

lemma segments_within:
  "concat segments = [c \<leftarrow> nm. c \<noteq> sep] \<Longrightarrow> seg \<in> set segments \<Longrightarrow> set seg \<subseteq> set nm"
proof
  fix x
  assume c: "concat segments = [c \<leftarrow> nm. c \<noteq> sep]" and s: "seg \<in> set segments" and x: "x \<in> set seg"
  from s x have "x \<in> set (concat segments)" by auto
  with c show "x \<in> set nm" by simp
qed

lemma split_name_ascii:
  assumes "ascii_compatible U" and "\<forall>c \<in> set nm. c < 128"
  shows "split_name U nm = split_name ascii_tables nm"
proof -
  have low: "lower U seg = lower ascii_tables seg" if "set seg \<subseteq> set nm" for seg
  proof -
    from that assms(2) have "\<forall>c \<in> set seg. c < 128"
      by auto
    with assms(1) have "lower U seg = map ascii_lower_char seg"
      by (simp add: ascii_compatible_def)
    then show ?thesis
      by (simp add: ascii_tables_def)
  qed
  show ?thesis
  proof (cases "underscore \<in> set nm")
    case True
    let ?segs = "[p \<leftarrow> split_on underscore nm. p \<noteq> []]"
    have "concat ?segs = [c \<leftarrow> nm. c \<noteq> underscore]"
      by (simp add: concat_filter_nonempty concat_split_on)
    then have "\<forall>seg \<in> set ?segs. set seg \<subseteq> set nm"
      by (intro ballI) (rule segments_within)
    then have "map (lower U) ?segs = map (lower ascii_tables) ?segs"
      using low by (intro map_cong) auto
    with True show ?thesis
      by (simp add: split_name_snake)
  next
    case False
    have "\<forall>c \<in> set nm. isupper U c = isupper ascii_tables c"
      using assms by (simp add: ascii_compatible_def ascii_tables_def)
    then have u: "split_upper U nm = split_upper ascii_tables nm"
      by (rule split_upper_cong)
    from False have "[c \<leftarrow> nm. c \<noteq> underscore] = nm"
      by (auto simp: filter_id_conv)
    then have "concat (split_upper ascii_tables nm) = [c \<leftarrow> nm. c \<noteq> underscore]"
      by (simp add: concat_split_upper)
    then have "\<forall>seg \<in> set (split_upper ascii_tables nm). set seg \<subseteq> set nm"
      by (intro ballI) (rule segments_within)
    then have "map (lower U) (split_upper ascii_tables nm)
                 = map (lower ascii_tables) (split_upper ascii_tables nm)"
      using low by (intro map_cong) auto
    with False u show ?thesis
      by (simp add: split_name_camel)
  qed
qed

lemma ascii_tables_compatible: "ascii_compatible ascii_tables"
  by (simp add: ascii_compatible_def ascii_tables_def)

text \<open>
  C7. With Python's case tables (any tables that treat ASCII text as Python does), the
  splitter maps \<open>get_user_name\<close> and \<open>GetUserName\<close> to \<open>get\<close>, \<open>user\<close>, \<open>name\<close>, and \<open>x\<close> to
  \<open>x\<close>, and it cuts \<open>HTTPServer\<close> at every upper-case letter. For every name and whatever
  the case tables are, the tokens are the lower case of segments of the name, none of them
  empty, that in their order make up the name without its underscores; and a name without
  underscore is cut exactly before every upper-case character but the first character of
  the name.
\<close>

theorem split_name_tokens:
  "(ascii_compatible U \<longrightarrow>
      split_name U (ascii ''get_user_name'') = map ascii [''get'', ''user'', ''name'']
      \<and> split_name U (ascii ''GetUserName'') = map ascii [''get'', ''user'', ''name'']
      \<and> split_name U (ascii ''x'') = [ascii ''x'']
      \<and> split_name U (ascii ''HTTPServer'') = map ascii [''h'', ''t'', ''t'', ''p'', ''server''])
   \<and> (\<exists>segments. split_name U nm = map (lower U) segments \<and> [] \<notin> set segments
         \<and> concat segments = [c \<leftarrow> nm. c \<noteq> underscore])
   \<and> (underscore \<notin> set nm \<longrightarrow> split_name U nm = map (lower U) (split_upper U nm))"
proof (intro conjI impI)
  assume c: "ascii_compatible U"
  have a: "\<forall>c \<in> set (ascii ''get_user_name''). c < 128"
    by code_simp
  have "split_name ascii_tables (ascii ''get_user_name'') = map ascii [''get'', ''user'', ''name'']"
    by code_simp
  with split_name_ascii [OF c a]
  show "split_name U (ascii ''get_user_name'') = map ascii [''get'', ''user'', ''name'']"
    by simp
next
  assume c: "ascii_compatible U"
  have a: "\<forall>c \<in> set (ascii ''GetUserName''). c < 128"
    by code_simp
  have "split_name ascii_tables (ascii ''GetUserName'') = map ascii [''get'', ''user'', ''name'']"
    by code_simp
  with split_name_ascii [OF c a]
  show "split_name U (ascii ''GetUserName'') = map ascii [''get'', ''user'', ''name'']"
    by simp
next
  assume c: "ascii_compatible U"
  have a: "\<forall>c \<in> set (ascii ''x''). c < 128"
    by code_simp
  have "split_name ascii_tables (ascii ''x'') = [ascii ''x'']"
    by code_simp
  with split_name_ascii [OF c a] show "split_name U (ascii ''x'') = [ascii ''x'']"
    by simp
next
  assume c: "ascii_compatible U"
  have a: "\<forall>c \<in> set (ascii ''HTTPServer''). c < 128"
    by code_simp
  have "split_name ascii_tables (ascii ''HTTPServer'')
          = map ascii [''h'', ''t'', ''t'', ''p'', ''server'']"
    by code_simp
  with split_name_ascii [OF c a]
  show "split_name U (ascii ''HTTPServer'') = map ascii [''h'', ''t'', ''t'', ''p'', ''server'']"
    by simp
next
  show "\<exists>segments. split_name U nm = map (lower U) segments \<and> [] \<notin> set segments
          \<and> concat segments = [c \<leftarrow> nm. c \<noteq> underscore]"
    by (rule split_name_segments)
next
  assume "underscore \<notin> set nm"
  then show "split_name U nm = map (lower U) (split_upper U nm)"
    by (rule split_name_camel)
qed

theorem split_name_tokens_witness:
  "ascii_compatible ascii_tables
   \<and> split_name ascii_tables (ascii ''GetUserName'') = map ascii [''get'', ''user'', ''name'']
   \<and> underscore \<notin> set (ascii ''HTTPServer'')
   \<and> split_name ascii_tables (ascii ''HTTPServer'')
       = map (lower ascii_tables) (split_upper ascii_tables (ascii ''HTTPServer''))
   \<and> split_upper ascii_tables (ascii ''HTTPServer'')
       = map ascii [''H'', ''T'', ''T'', ''P'', ''Server'']"
proof -
  have c: "ascii_compatible ascii_tables"
    by (rule ascii_tables_compatible)
  have h: "underscore \<notin> set (ascii ''HTTPServer'')"
    by code_simp
  have u: "split_upper ascii_tables (ascii ''HTTPServer'')
             = map ascii [''H'', ''T'', ''T'', ''P'', ''Server'']"
    by code_simp
  from split_name_tokens [of ascii_tables "ascii ''HTTPServer''"] c h u show ?thesis
    by blast
qed

section \<open>Properties of the Relevance Scorer\<close>

lemma contains_sublist: "contains s part = sublist part s"
  by (induction s) (simp_all add: sublist_Cons_right)

lemma contains_iff: "contains text part \<longleftrightarrow> (\<exists>pre post. text = pre @ part @ post)"
  by (simp add: contains_sublist sublist_def)

lemma boundary_at_append: "boundary_at U (a @ b) (length a) = word_edge U a b"
  by (cases "a = []"; cases "b = []")
     (simp_all add: boundary_at_def word_edge_def nth_append last_conv_nth hd_conv_nth)

lemma re_search_word_iff: "re_search_word U part text = occurs_as_word U part text"
proof
  assume "re_search_word U part text"
  then have "\<exists>i \<in> set [0..<Suc (length text)]. boundary_at U text i
      \<and> list_all2 (ignorecase_eq U) part (take (length part) (drop i text))
      \<and> boundary_at U text (i + length part)"
    unfolding re_search_word_def list_ex_iff .
  then obtain i where m: "i \<in> set [0..<Suc (length text)]" and i: "boundary_at U text i"
    "list_all2 (ignorecase_eq U) part (take (length part) (drop i text))"
    "boundary_at U text (i + length part)"
    by blast
  from m have le: "i \<le> length text"
    by auto
  define pre where "pre = take i text"
  define mid where "mid = take (length part) (drop i text)"
  define post where "post = drop (length part) (drop i text)"
  have t: "text = pre @ mid @ post"
    unfolding pre_def mid_def post_def by (simp only: append_take_drop_id)
  have lp: "length pre = i"
    using le by (simp add: pre_def)
  have am: "list_all2 (ignorecase_eq U) part mid"
    using i(2) by (simp add: mid_def)
  then have lm: "length mid = length part"
    by (auto dest: list_all2_lengthD)
  have "boundary_at U (pre @ (mid @ post)) (length pre)"
    using i(1) t lp by simp
  then have e1: "word_edge U pre (mid @ post)"
    by (simp only: boundary_at_append)
  have "boundary_at U ((pre @ mid) @ post) (length (pre @ mid))"
    using i(3) t lp lm by simp
  then have e2: "word_edge U (pre @ mid) post"
    by (simp only: boundary_at_append)
  from t am e1 e2 show "occurs_as_word U part text"
    unfolding occurs_as_word_def by blast
next
  assume "occurs_as_word U part text"
  then obtain pre mid post where d: "text = pre @ mid @ post"
    "list_all2 (ignorecase_eq U) part mid"
    "word_edge U pre (mid @ post)" "word_edge U (pre @ mid) post"
    unfolding occurs_as_word_def by blast
  from d(2) have lm: "length mid = length part"
    by (auto dest: list_all2_lengthD)
  have "boundary_at U text (length pre)"
    using boundary_at_append [of U pre "mid @ post"] d(1,3) by simp
  moreover have "take (length part) (drop (length pre) text) = mid"
    using d(1) lm by simp
  moreover have "boundary_at U text (length pre + length part)"
    using boundary_at_append [of U "pre @ mid" post] d(1,4) lm by simp
  moreover have "length pre \<in> set [0..<Suc (length text)]"
    using d(1) by simp
  ultimately show "re_search_word U part text"
    unfolding re_search_word_def list_ex_iff using d(2) by blast
qed

lemma count_found_sum:
  "count_found U parts impl found = found + (\<Sum>t\<leftarrow>parts. token_credit U t impl)"
  by (induction parts arbitrary: found)
     (auto simp: token_credit_def occurs_ignoring_case_def re_search_word_iff contains_iff)

text \<open>
  C3. When the filtered token list of a name is not empty, the base score is the sum over
  the filtered tokens of what each token counts for (1 for a token longer than two
  characters that occurs in the implementation as a whole word, else a half for a token
  that occurs in it as a substring, else 0, letter case ignored), divided by the number of
  filtered tokens.
\<close>

theorem base_score_spec:
  "filtered_parts U nm \<noteq> [] \<Longrightarrow>
   fst (base_relevance U nm impl)
     = (\<Sum>t\<leftarrow>filtered_parts U nm. token_credit U t impl)
         / real (length (filtered_parts U nm))"
  by (simp add: base_relevance_def Let_def count_found_sum)

theorem base_score_spec_witness:
  "filtered_parts ascii_tables (ascii ''GetUserName'') \<noteq> []
   \<and> (\<Sum>t\<leftarrow>filtered_parts ascii_tables (ascii ''GetUserName'').
          token_credit ascii_tables t (ascii ''the user fullname''))
        / real (length (filtered_parts ascii_tables (ascii ''GetUserName''))) = 3 / 4"
proof -
  have h: "filtered_parts ascii_tables (ascii ''GetUserName'') \<noteq> []"
    by code_simp
  have v: "fst (base_relevance ascii_tables (ascii ''GetUserName'') (ascii ''the user fullname''))
             = 3 / 4"
    by code_simp
  show ?thesis
    using h base_score_spec [OF h, of "ascii ''the user fullname''"] v by simp
qed

text \<open>
  C5. The score that the scorer returns lies between 0 and 1, also where the penalties
  make the score before clamping negative, as for the name \<open>x\<close>.
\<close>

theorem score_range:
  "0 \<le> fst (calculate_relevance U nm impl) \<and> fst (calculate_relevance U nm impl) \<le> 1"
  by (simp add: calculate_relevance_def split: prod.splits)

theorem score_range_witness:
  "fst (adjusted_relevance ascii_tables (ascii ''x'') (ascii ''return 1'')) < 0
   \<and> 0 \<le> fst (calculate_relevance ascii_tables (ascii ''x'') (ascii ''return 1''))
   \<and> fst (calculate_relevance ascii_tables (ascii ''x'') (ascii ''return 1'')) \<le> 1"
proof -
  have "fst (adjusted_relevance ascii_tables (ascii ''x'') (ascii ''return 1'')) < 0"
    by code_simp
  then show ?thesis
    using score_range [of ascii_tables "ascii ''x''" "ascii ''return 1''"] by simp
qed

text \<open>
  C4. The reasons that the scorer returns are never empty, and the last one is the
  classification string of the score before clamping: the bands below 0.3, 0.5, 0.6 and 0.7
  are tried in this order, the first that holds decides, and the fifth string is for the
  scores from 0.7 on.
\<close>

theorem classification_reason:
  "snd (calculate_relevance U nm impl) \<noteq> []
   \<and> last (snd (calculate_relevance U nm impl))
       = (let score = fst (adjusted_relevance U nm impl)
          in if score < 0.3 then ascii ''Name different from implementation - Wrong name''
             else if score < 0.5
             then ascii ''Name somewhat reflects implementation - Consider changing''
             else if score < 0.6
             then ascii ''Name reflects implementation - needs improvement''
             else if score < 0.7 then ascii ''Name reflects implementation - good''
             else ascii ''Name reflects implementation well'')"
  by (simp add: calculate_relevance_def classification_def Let_def split: prod.splits)

theorem classification_reason_witness:
  "last (snd (calculate_relevance ascii_tables (ascii ''x'') (ascii ''return 1'')))
     = ascii ''Name different from implementation - Wrong name''
   \<and> last (snd (calculate_relevance ascii_tables (ascii ''Test'') (ascii ''the test_NAME is'')))
     = ascii ''Name somewhat reflects implementation - Consider changing''
   \<and> last (snd (calculate_relevance ascii_tables (ascii ''GetUserName'')
                  (ascii ''the user_NAME is'')))
     = ascii ''Name reflects implementation - needs improvement''
   \<and> last (snd (calculate_relevance ascii_tables (ascii ''total_of_all'')
                  (ascii ''total of all_'')))
     = ascii ''Name reflects implementation - good''
   \<and> last (snd (calculate_relevance ascii_tables (ascii ''GetUserName'')
                  (ascii ''the user NAME is'')))
     = ascii ''Name reflects implementation well''"
proof -
  have a: "fst (adjusted_relevance ascii_tables (ascii ''x'') (ascii ''return 1'')) = - 3 / 10"
    by code_simp
  have b: "fst (adjusted_relevance ascii_tables (ascii ''Test'') (ascii ''the test_NAME is''))
             = 3 / 10"
    by code_simp
  have c: "fst (adjusted_relevance ascii_tables (ascii ''GetUserName'')
                  (ascii ''the user_NAME is'')) = 1 / 2"
    by code_simp
  have d: "fst (adjusted_relevance ascii_tables (ascii ''total_of_all'')
                  (ascii ''total of all_'')) = 2 / 3"
    by code_simp
  have e: "fst (adjusted_relevance ascii_tables (ascii ''GetUserName'')
                  (ascii ''the user NAME is'')) = 1"
    by code_simp
  show ?thesis
    using classification_reason [of ascii_tables "ascii ''x''" "ascii ''return 1''"]
      classification_reason [of ascii_tables "ascii ''Test''" "ascii ''the test_NAME is''"]
      classification_reason [of ascii_tables "ascii ''GetUserName''" "ascii ''the user_NAME is''"]
      classification_reason [of ascii_tables "ascii ''total_of_all''" "ascii ''total of all_''"]
      classification_reason [of ascii_tables "ascii ''GetUserName''" "ascii ''the user NAME is''"]
    by (simp only: a b c d e Let_def) simp
qed

section \<open>Properties of the Implementation Summarizer\<close>

lemma target_names_iff:
  "a \<in> set (target_names n) \<longleftrightarrow> (\<exists>j targets. n = Assign j targets \<and> Name a \<in> set targets)"
proof (cases n)
  case (Assign j targets)
  have "a \<in> set [target_id. Name target_id \<leftarrow> targets] \<longleftrightarrow> Name a \<in> set targets"
    by (induction targets) (auto split: expr.splits)
  with Assign show ?thesis by simp
qed simp_all

text \<open>
  C2, as the claim states it, fails: a chained assignment \<open>host = port = None\<close> in a class
  body has two targets, and both names become attributes.
\<close>

theorem chained_assignment_counterexample:
  "extract_class_attributes
     (ClassDef 1 (ascii ''Config'') None
        [Assign 2 [Name (ascii ''host''), Name (ascii ''port'')]])
   = [ascii ''host'', ascii ''port'']"
  by (simp add: extract_class_attributes_def)

text \<open>
  C2, amended. The attribute names of a class are exactly the targets that are bare names
  of the assignment statements in the class body itself, every target of a chained
  assignment included; a tuple target contributes no name.
\<close>

theorem class_attributes_spec:
  "(a \<in> set (extract_class_attributes (ClassDef i nm doc body))
      \<longleftrightarrow> (\<exists>j targets. Assign j targets \<in> set body \<and> Name a \<in> set targets))
   \<and> extract_class_attributes (ClassDef i nm doc [Assign k [Tuple elts]]) = []"
  by (auto simp: extract_class_attributes_def target_names_iff)

theorem class_attributes_spec_witness:
  "Assign 2 [Name (ascii ''host''), Name (ascii ''port'')]
     \<in> set [Assign 2 [Name (ascii ''host''), Name (ascii ''port'')]]
   \<and> Name (ascii ''port'') \<in> set [Name (ascii ''host''), Name (ascii ''port'')]
   \<and> ascii ''port'' \<in> set (extract_class_attributes
        (ClassDef 1 (ascii ''Config'') None
           [Assign 2 [Name (ascii ''host''), Name (ascii ''port'')]]))
   \<and> ascii ''a'' \<notin> set (extract_class_attributes
        (ClassDef 1 (ascii ''Config'') None
           [Assign 2 [Name (ascii ''host''), Name (ascii ''port'')]]))
   \<and> extract_class_attributes
         (ClassDef 1 (ascii ''Config'') None
            [Assign 3 [Tuple [Name (ascii ''a''), Name (ascii ''b'')]]]) = []"
proof -
  have n: "Name (ascii ''a'') \<notin> set [Name (ascii ''host''), Name (ascii ''port'')]"
    by (simp add: ascii_def)
  from class_attributes_spec
         [of "ascii ''port''" 1 "ascii ''Config''" None
             "[Assign 2 [Name (ascii ''host''), Name (ascii ''port'')]]"
             3 "[Name (ascii ''a''), Name (ascii ''b'')]"]
       class_attributes_spec
         [of "ascii ''a''" 1 "ascii ''Config''" None
             "[Assign 2 [Name (ascii ''host''), Name (ascii ''port'')]]"
             3 "[Name (ascii ''a''), Name (ascii ''b'')]"] n
  show ?thesis
    by simp
qed

section \<open>Properties of the Analysis Orchestrator\<close>

lemma entry_suggestion:
  "entry U nm summary = Inr e \<Longrightarrow>
   (0.7 \<le> relevance_score e \<longrightarrow> suggestion e = None)
   \<and> (relevance_score e < 0.7 \<longrightarrow> (\<exists>s. suggestion e = Some s))"
  by (auto simp: entry_def split: prod.splits if_splits sum.splits)

lemma generate_suggestion_total:
  "nm \<noteq> [] \<Longrightarrow> \<exists>s. generate_suggestion U nm summary = Inr s"
  by (cases nm) (simp_all add: generate_suggestion_def Let_def)

lemma entry_total: "nm \<noteq> [] \<Longrightarrow> \<exists>e. entry U nm summary = Inr e"
  using generate_suggestion_total [of nm U summary]
  by (auto simp: entry_def split: prod.splits)

lemma classes_loop_all:
  "classes_loop U nodes acc = Inr cs \<Longrightarrow> \<forall>e \<in> set acc. P e \<Longrightarrow>
   (\<And>nm summary e. entry U nm summary = Inr e \<Longrightarrow> P e) \<Longrightarrow> \<forall>e \<in> set cs. P e"
proof (induction nodes arbitrary: acc)
  case Nil
  then show ?case by simp
next
  case (Cons node rest)
  show ?case
  proof (cases "isClassDef node")
    case False
    with Cons show ?thesis by simp
  next
    case True
    with Cons.prems(1) obtain c where c: "entry U (node_name node) (class_summary node) = Inr c"
      and loop: "classes_loop U rest (acc @ [c]) = Inr cs"
      by (auto split: sum.splits)
    from c Cons.prems(3) have "P c" by blast
    with Cons.prems(2) have "\<forall>e \<in> set (acc @ [c]). P e" by simp
    from Cons.IH [OF loop this Cons.prems(3)] show ?thesis .
  qed
qed

lemma functions_loop_all:
  "functions_loop U src tr nodes acc = Inr fs \<Longrightarrow> \<forall>e \<in> set acc. P e \<Longrightarrow>
   (\<And>nm summary e. entry U nm summary = Inr e \<Longrightarrow> P e) \<Longrightarrow> \<forall>e \<in> set fs. P e"
proof (induction nodes arbitrary: acc)
  case Nil
  then show ?case by simp
next
  case (Cons node rest)
  show ?case
  proof (cases "isFunctionDef node \<and> \<not> is_method tr node")
    case False
    with Cons show ?thesis by auto
  next
    case True
    with Cons.prems(1) obtain f where f: "entry U (node_name node) (function_summary src node) = Inr f"
      and loop: "functions_loop U src tr rest (acc @ [f]) = Inr fs"
      by (auto split: sum.splits)
    from f Cons.prems(3) have "P f" by blast
    with Cons.prems(2) have "\<forall>e \<in> set (acc @ [f]). P e" by simp
    from Cons.IH [OF loop this Cons.prems(3)] show ?thesis .
  qed
qed

lemma classes_loop_total:
  "\<forall>n \<in> set nodes. isClassDef n \<longrightarrow> node_name n \<noteq> [] \<Longrightarrow>
   \<exists>cs. classes_loop U nodes acc = Inr cs"
proof (induction nodes arbitrary: acc)
  case Nil
  then show ?case by simp
next
  case (Cons node rest)
  then show ?case
    using entry_total [of "node_name node" U "class_summary node"] by auto
qed

lemma functions_loop_total:
  "\<forall>n \<in> set nodes. isFunctionDef n \<longrightarrow> node_name n \<noteq> [] \<Longrightarrow>
   \<exists>fs. functions_loop U src tr nodes acc = Inr fs"
proof (induction nodes arbitrary: acc)
  case Nil
  then show ?case by simp
next
  case (Cons node rest)
  then show ?case
    using entry_total [of "node_name node" U "function_summary src node"] by auto
qed

lemma analyze_total:
  assumes "tree self = Some t" and "well_named t"
  shows "\<exists>r. analyze U self = Inr r"
proof -
  from assms(2) obtain cs where cs: "analyze_classes U t = Inr cs"
    using classes_loop_total [of "walk t" U "[]"]
    by (auto simp: well_named_def analyze_classes_def list_all_iff)
  from assms(2) obtain fs where fs: "analyze_functions U (code self) t = Inr fs"
    using functions_loop_total [of "walk t" U "code self" t "[]"]
    by (auto simp: well_named_def analyze_functions_def list_all_iff)
  from assms(1) cs fs show ?thesis
    by (simp add: analyze_def Let_def)
qed

lemma analyze_report:
  "tree self = Some t \<Longrightarrow> analyze U self = Inr r \<Longrightarrow>
   \<exists>cs fs. analyze_classes U t = Inr cs \<and> analyze_functions U (code self) t = Inr fs
     \<and> error r = None \<and> classes r = Some cs \<and> functions r = Some fs
     \<and> overall_score r
         = Some (if map relevance_score cs @ map relevance_score fs \<noteq> []
                 then sum_list (map relevance_score cs @ map relevance_score fs)
                        / real (length (map relevance_score cs @ map relevance_score fs))
                 else 0)"
  by (auto simp: analyze_def Let_def split: sum.splits)

lemma nested_analysis: "analyze ascii_tables nested_detector = Inr nested_report"
  by code_simp

text \<open>
  C1. The code reports a method of a class that is itself nested in a class: \<open>_is_method\<close>
  looks for the function in the bodies of the children of the module only. For the file
  above, \<open>method\<close> is no method to \<open>_is_method\<close>, and it is reported as a function,
  whatever the case tables are.
\<close>

theorem nested_method_reported:
  "is_method nested_example (FunctionDef 3 (ascii ''method'') None 3 4 [Other 4 []]) = False
   \<and> analyze_functions ascii_tables (Some nested_source) nested_example = Inr [method_entry]
   \<and> (\<exists>f. analyze_functions U (Some nested_source) nested_example = Inr [f]
         \<and> name f = ascii ''method'')"
proof (intro conjI)
  show m: "is_method nested_example (FunctionDef 3 (ascii ''method'') None 3 4 [Other 4 []])
             = False"
    by code_simp
  show "analyze_functions ascii_tables (Some nested_source) nested_example = Inr [method_entry]"
    by code_simp
  have w: "walk nested_example =
      [Module 0 [ClassDef 1 (ascii ''Outer'') None
                   [ClassDef 2 (ascii ''Inner'') None
                      [FunctionDef 3 (ascii ''method'') None 3 4 [Other 4 []]]]],
       ClassDef 1 (ascii ''Outer'') None
         [ClassDef 2 (ascii ''Inner'') None
            [FunctionDef 3 (ascii ''method'') None 3 4 [Other 4 []]]],
       ClassDef 2 (ascii ''Inner'') None
         [FunctionDef 3 (ascii ''method'') None 3 4 [Other 4 []]],
       FunctionDef 3 (ascii ''method'') None 3 4 [Other 4 []],
       Other 4 []]"
    by (simp add: walk_def nested_example_def)
  have "ascii ''method'' \<noteq> []"
    by (simp add: ascii_def)
  then obtain f where f: "entry U (ascii ''method'')
      (function_summary (Some nested_source)
         (FunctionDef 3 (ascii ''method'') None 3 4 [Other 4 []])) = Inr f"
    using entry_total by blast
  then have "name f = ascii ''method''"
    by (auto simp: entry_def split: prod.splits if_splits sum.splits)
  moreover have "analyze_functions U (Some nested_source) nested_example = Inr [f]"
    by (simp add: analyze_functions_def w m f)
  ultimately show "\<exists>f. analyze_functions U (Some nested_source) nested_example = Inr [f]
      \<and> name f = ascii ''method''"
    by blast
qed

text \<open>
  C6. For a file that was parsed, the analysis of a well-named tree returns a report, and
  the overall score of every report is the arithmetic mean of the scores of its classes and
  functions together, and 0 when there are none.
\<close>

theorem overall_score_mean:
  assumes "tree self = Some t"
  shows "(well_named t \<longrightarrow> (\<exists>r. analyze U self = Inr r))
         \<and> (\<forall>r. analyze U self = Inr r \<longrightarrow>
              (\<exists>cs fs. classes r = Some cs \<and> functions r = Some fs
                 \<and> overall_score r
                     = Some (if cs @ fs = [] then 0
                             else sum_list (map relevance_score (cs @ fs))
                                    / real (length (cs @ fs)))))"
proof (intro conjI allI impI)
  assume "well_named t"
  with assms show "\<exists>r. analyze U self = Inr r"
    by (rule analyze_total)
next
  fix r
  assume "analyze U self = Inr r"
  from analyze_report [OF assms this]
  show "\<exists>cs fs. classes r = Some cs \<and> functions r = Some fs
          \<and> overall_score r
              = Some (if cs @ fs = [] then 0
                      else sum_list (map relevance_score (cs @ fs))
                             / real (length (cs @ fs)))"
    by auto
qed

theorem overall_score_mean_witness:
  "tree nested_detector = Some nested_example \<and> well_named nested_example
   \<and> analyze ascii_tables nested_detector = Inr nested_report
   \<and> overall_score nested_report
       = Some (sum_list (map relevance_score [outer_entry, inner_entry, method_entry]) / 3)
   \<and> (\<exists>r. analyze ascii_tables \<lparr>code_file = ascii ''empty.py'', code = Some [], tree = Some (Module 0 [])\<rparr>
              = Inr r \<and> overall_score r = Some 0)"
proof -
  have t: "tree nested_detector = Some nested_example"
    by (simp add: nested_detector_def)
  have w: "well_named nested_example"
    by code_simp
  from overall_score_mean [OF t] nested_analysis
  obtain cs fs where r: "classes nested_report = Some cs" "functions nested_report = Some fs"
    "overall_score nested_report
       = Some (if cs @ fs = [] then 0
               else sum_list (map relevance_score (cs @ fs)) / real (length (cs @ fs)))"
    by blast
  from r(1,2) have "cs @ fs = [outer_entry, inner_entry, method_entry]"
    by (simp add: nested_report_def)
  with r(3) have m: "overall_score nested_report
       = Some (sum_list (map relevance_score [outer_entry, inner_entry, method_entry]) / 3)"
    by simp
  let ?d = "\<lparr>code_file = ascii ''empty.py'', code = Some [], tree = Some (Module 0 [])\<rparr>"
  have t0: "tree ?d = Some (Module 0 [])"
    by simp
  have w0: "well_named (Module 0 [])"
    by code_simp
  from overall_score_mean [OF t0] w0 obtain r0 where r0: "analyze ascii_tables ?d = Inr r0"
    by blast
  have "analyze_classes ascii_tables (Module 0 []) = Inr []" and "analyze_functions ascii_tables (Some []) (Module 0 []) = Inr []"
    by (simp_all add: analyze_classes_def analyze_functions_def walk_def)
  with r0 have e: "classes r0 = Some []" "functions r0 = Some []"
    by (auto simp: analyze_def Let_def)
  from overall_score_mean [OF t0] r0 e have "overall_score r0 = Some 0"
    by fastforce
  with r0 t w m nested_analysis show ?thesis
    by blast
qed

text \<open>
  C8. In every report, an entry whose score is at least 0.7 has no suggestion, and an entry
  whose score is below 0.7 has one.
\<close>

theorem suggestion_presence:
  assumes "analyze U self = Inr r" and "classes r = Some cs" and "functions r = Some fs"
    and "e \<in> set (cs @ fs)"
  shows "(0.7 \<le> relevance_score e \<longrightarrow> suggestion e = None)
         \<and> (relevance_score e < 0.7 \<longrightarrow> (\<exists>s. suggestion e = Some s))"
proof (cases "tree self")
  case None
  with assms(1,2) show ?thesis
    by (auto simp: analyze_def)
next
  case (Some t)
  from analyze_report [OF Some assms(1)] assms(2,3)
  have cs: "analyze_classes U t = Inr cs" and fs: "analyze_functions U (code self) t = Inr fs"
    by auto
  let ?P = "\<lambda>e. (0.7 \<le> relevance_score e \<longrightarrow> suggestion e = None)
                \<and> (relevance_score e < 0.7 \<longrightarrow> (\<exists>s. suggestion e = Some s))"
  have "\<forall>e \<in> set cs. ?P e"
    using cs unfolding analyze_classes_def
    by (rule classes_loop_all) (simp, rule entry_suggestion)
  moreover have "\<forall>e \<in> set fs. ?P e"
    using fs unfolding analyze_functions_def
    by (rule functions_loop_all) (simp, rule entry_suggestion)
  ultimately show ?thesis
    using assms(4) by auto
qed

theorem suggestion_presence_witness:
  "analyze ascii_tables nested_detector = Inr nested_report
   \<and> classes nested_report = Some [outer_entry, inner_entry]
   \<and> functions nested_report = Some [method_entry]
   \<and> relevance_score outer_entry < 0.7 \<and> (\<exists>s. suggestion outer_entry = Some s)
   \<and> 0.7 \<le> relevance_score method_entry \<and> suggestion method_entry = None"
proof -
  have c: "classes nested_report = Some [outer_entry, inner_entry]"
    and f: "functions nested_report = Some [method_entry]"
    by (simp_all add: nested_report_def)
  have lo: "relevance_score outer_entry < 0.7"
    by (simp add: outer_entry_def)
  have hi: "0.7 \<le> relevance_score method_entry"
    by (simp add: method_entry_def)
  from suggestion_presence [OF nested_analysis c f, of outer_entry] lo
  have "\<exists>s. suggestion outer_entry = Some s"
    by simp
  moreover from suggestion_presence [OF nested_analysis c f, of method_entry] hi
  have "suggestion method_entry = None"
    by simp
  ultimately show ?thesis
    using nested_analysis c f lo hi by simp
qed

text \<open>
  C9. When the file cannot be read or its text cannot be parsed, the analysis returns the
  dictionary with the key \<open>error\<close> only: no classes, no functions and no overall score. The
  exception is caught, so the analysis returns.
\<close>

theorem load_failure_error_only:
  "read_file file_path = Inl e \<or> (\<exists>text. read_file file_path = Inr text \<and> ast_parse text = Inl e)
   \<Longrightarrow> analyze_file U read_file ast_parse file_path
         = Inr \<lparr>error = Some (ascii ''Failed to parse the file''), classes = None, functions = None,
                 overall_score = None\<rparr>"
  by (auto simp: analyze_file_def init_def load_file_def analyze_def)

theorem load_failure_error_only_witness:
  "analyze_file ascii_tables (\<lambda>p. Inl (Exception (ascii ''No such file'')))
       (\<lambda>s. Inr (Module 0 [])) (ascii ''missing.py'')
     = Inr \<lparr>error = Some (ascii ''Failed to parse the file''), classes = None, functions = None,
            overall_score = None\<rparr>
   \<and> analyze_file ascii_tables (\<lambda>p. Inr (ascii ''def f(:''))
       (\<lambda>s. Inl (Exception (ascii ''invalid syntax''))) (ascii ''bad.py'')
     = Inr \<lparr>error = Some (ascii ''Failed to parse the file''), classes = None, functions = None,
            overall_score = None\<rparr>"
  using load_failure_error_only
          [where U = ascii_tables and read_file = "\<lambda>p. Inl (Exception (ascii ''No such file''))"
             and ast_parse = "\<lambda>s. Inr (Module 0 [])" and file_path = "ascii ''missing.py''"
             and e = "Exception (ascii ''No such file'')"]
        load_failure_error_only
          [where U = ascii_tables and read_file = "\<lambda>p. Inr (ascii ''def f(:'')"
             and ast_parse = "\<lambda>s. Inl (Exception (ascii ''invalid syntax''))"
             and file_path = "ascii ''bad.py''" and e = "Exception (ascii ''invalid syntax'')"]
  by simp

lemma async_not_function: "isAsyncFunctionDef n \<Longrightarrow> \<not> isFunctionDef n"
  by (cases n) simp_all

lemma functions_loop_skip_async:
  "functions_loop U src tr [n \<leftarrow> nodes. \<not> isAsyncFunctionDef n] acc
     = functions_loop U src tr nodes acc"
  by (induction nodes arbitrary: acc) (auto dest: async_not_function split: sum.splits)

lemma class_methods_skip_async:
  "class_methods (ClassDef i nm doc [n \<leftarrow> body. \<not> isAsyncFunctionDef n])
     = class_methods (ClassDef i nm doc body)"
  by (induction body) (auto simp: class_methods_def dest: async_not_function)

text \<open>
  C10. An asynchronous function definition is never scored: the report of the functions is
  the one that the loop builds from the nodes of the walk that are no asynchronous
  definitions, at whatever depth they are, and the method names of a class summary are those
  of the body without its asynchronous definitions.
\<close>

theorem async_never_scored:
  "analyze_functions U src t
     = functions_loop U src t [n \<leftarrow> walk t. \<not> isAsyncFunctionDef n] []
   \<and> class_methods (ClassDef i nm doc body)
     = class_methods (ClassDef i nm doc [n \<leftarrow> body. \<not> isAsyncFunctionDef n])"
  by (simp add: analyze_functions_def functions_loop_skip_async class_methods_skip_async)

theorem async_never_scored_witness:
  "analyze_functions ascii_tables None async_example
     = functions_loop ascii_tables None async_example
         [async_example, ClassDef 4 (ascii ''Client'') None async_body,
          FunctionDef 2 (ascii ''inner'') None 2 3 [Other 3 []],
          FunctionDef 7 (ascii ''close'') None 7 8 [Other 8 []], Other 3 [], Other 6 [], Other 8 []] []
   \<and> class_methods (ClassDef 4 (ascii ''Client'') None async_body) = [ascii ''close'']"
proof -
  have w: "[n \<leftarrow> walk async_example. \<not> isAsyncFunctionDef n]
             = [async_example, ClassDef 4 (ascii ''Client'') None async_body,
                FunctionDef 2 (ascii ''inner'') None 2 3 [Other 3 []],
                FunctionDef 7 (ascii ''close'') None 7 8 [Other 8 []], Other 3 [], Other 6 [], Other 8 []]"
    by code_simp
  have m: "class_methods
             (ClassDef 4 (ascii ''Client'') None [n \<leftarrow> async_body. \<not> isAsyncFunctionDef n]) = [ascii ''close'']"
    by code_simp
  from async_never_scored [of ascii_tables None async_example 4 "ascii ''Client''" None async_body] w m
  show ?thesis
    by simp
qed

end
